theory Spec2Isabelle
  imports Complex_Main
begin

section \<open>Sift: tag extraction and tag matching (src/lib/claude.ts)\<close>

text \<open>
  A shallow embedding of the two exported functions of \<^verbatim>\<open>src/lib/claude.ts\<close>:
  \<^verbatim>\<open>extractTags\<close> and \<^verbatim>\<open>findClosestPhraseByTags\<close>, with the constant \<^verbatim>\<open>TAGS\<close>.

  Strings. A JavaScript string is a sequence of UTF-16 code units. The model uses
  \<^typ>\<open>string\<close>, reading each \<^typ>\<open>char\<close> as the code unit of the same number
  (U+0000 to U+00FF). It therefore covers every string whose code units lie below 256,
  which includes all of ASCII and every term of \<^verbatim>\<open>TAGS\<close>.

  Numbers. Indices and scores are non-negative integers far below \<open>2^53\<close>, where
  JavaScript numbers are exact; they are \<^typ>\<open>nat\<close>, and \<^verbatim>\<open>bestIndex\<close>, which starts
  at \<open>-1\<close>, is \<^typ>\<open>int\<close>.
\<close>

subsection \<open>The vocabulary\<close>

definition TAGS :: "string list" where
  "TAGS =
    [''piano'', ''guitar'',
     ''sad'', ''melancholic'', ''nostalgic'', ''hopeful'', ''peaceful'', ''dark'', ''lonely'',
     ''slow'', ''mellow'', ''sleepy'', ''upbeat'', ''groovy'', ''bossa nova'',
     ''vinyl crackle'', ''ambient'', ''spacey'', ''bass-heavy'', ''minimal'',
     ''rain'', ''ocean'', ''night'', ''cafe'', ''winter'', ''home'', ''nature'', ''space'',
     ''cozy'', ''warm'', ''dreamy'', ''focus'', ''jazz'', ''chill'']"

definition TAG_SET :: "string set" where
  "TAG_SET = set TAGS"

subsection \<open>Built-in string operations\<close>

text \<open>
  \<^verbatim>\<open>String.prototype.toLowerCase\<close> uses the locale-independent Unicode case mapping.
  On code units below 256 that mapping is per code unit: the letters \<open>A\<close> to \<open>Z\<close>
  (65 to 90) and the Latin-1 capitals U+00C0 to U+00DE other than the multiplication
  sign U+00D7 (192 to 222 without 215) move up by 32; every other unit stays.
\<close>

definition toLowerCase_unit :: "char \<Rightarrow> char" where
  "toLowerCase_unit c =
     (let n = (of_char c :: nat)
      in if (65 \<le> n \<and> n \<le> 90) \<or> (192 \<le> n \<and> n \<le> 222 \<and> n \<noteq> 215)
         then char_of (n + 32) else c)"

definition toLowerCase :: "string \<Rightarrow> string" where
  "toLowerCase s = map toLowerCase_unit s"

text \<open>
  \<^verbatim>\<open>s.startsWith(x)\<close> and \<^verbatim>\<open>s.includes(x)\<close>: \<open>x\<close> occurs in \<open>s\<close> at position 0,
  respectively at some position. The empty string occurs in every string.
\<close>

fun startsWith :: "string \<Rightarrow> string \<Rightarrow> bool" where
  "startsWith s [] = True"
| "startsWith [] (d # x) = False"
| "startsWith (c # s) (d # x) = (c = d \<and> startsWith s x)"

fun includes_str :: "string \<Rightarrow> string \<Rightarrow> bool" where
  "includes_str [] x = (x = [])"
| "includes_str (c # s) x = (startsWith (c # s) x \<or> includes_str s x)"

subsection \<open>The console\<close>

text \<open>
  Both functions write to the console and have no other effect on the process. The console
  is explicit state: the list of the entries written so far, each entry holding the values
  its template or argument list interpolates.
\<close>

text \<open>
  A thrown value, as far as the \<^verbatim>\<open>catch\<close> clause of \<^verbatim>\<open>extractTags\<close> looks at it.
  JavaScript lets any value be thrown, and the \<^verbatim>\<open>catch\<close> variable is untyped.
  \<open>TypeError\<close> and \<open>SyntaxError\<close> are the errors the runtime itself raises in this file
  (reading a property of \<^verbatim>\<open>undefined\<close>; \<^verbatim>\<open>JSON.parse\<close>): instances of \<^verbatim>\<open>Error\<close>
  whose message is a string. \<open>ErrorInstance\<close> is any other instance of \<^verbatim>\<open>Error\<close>, with
  what converting its \<^verbatim>\<open>message\<close> property to a string does; \<open>NonError\<close> is any other
  value, with what converting the value itself to a string does. A conversion yields a
  string, or it throws: a \<^verbatim>\<open>TypeError\<close> for a Symbol and for an object with no usable
  \<^verbatim>\<open>toString\<close> (such as one with a null prototype), and whatever a \<^verbatim>\<open>toString\<close> method
  of the object's own throws.
\<close>

datatype exn =
    TypeError
  | SyntaxError
  | ErrorInstance to_string
  | NonError to_string
and to_string =
    Converts string
  | ConversionThrows exn

datatype log_entry =
    NoKey
  | NotArray string
  | Extracted "string list" string
  | Failed exn
  | Matched "string list" string nat nat

type_synonym console = "log_entry list"

subsection \<open>findClosestPhraseByTags\<close>

text \<open>
  The inner loop, \<^verbatim>\<open>for (const tag of tags) { if (phrase.includes(tag.toLowerCase())) score++ }\<close>,
  with \<^verbatim>\<open>score\<close> passed along.
\<close>

fun tagLoop :: "string \<Rightarrow> string list \<Rightarrow> nat \<Rightarrow> nat" where
  "tagLoop phrase [] score = score"
| "tagLoop phrase (tag # tags) score =
     tagLoop phrase tags (if includes_str phrase (toLowerCase tag) then score + 1 else score)"

text \<open>
  The outer loop, \<^verbatim>\<open>for (let i = 0; i < phrases.length; i++)\<close>, with the pair
  \<^verbatim>\<open>(bestIndex, bestScore)\<close> passed along.
\<close>

function phraseLoop :: "string list \<Rightarrow> string list \<Rightarrow> nat \<Rightarrow> int \<times> nat \<Rightarrow> int \<times> nat" where
  "phraseLoop phrases tags i (bestIndex, bestScore) =
     (if i < length phrases then
        (if tagLoop (toLowerCase (phrases ! i)) tags 0 > bestScore
         then phraseLoop phrases tags (i + 1) (int i, tagLoop (toLowerCase (phrases ! i)) tags 0)
         else phraseLoop phrases tags (i + 1) (bestIndex, bestScore))
      else (bestIndex, bestScore))"
  by pat_completeness auto
termination
  by (relation "measure (\<lambda>(phrases, tags, i, best). length phrases - i)") auto

declare phraseLoop.simps [simp del]

text \<open>
  \<^verbatim>\<open>getPhrases\<close> is imported from \<^verbatim>\<open>./embeddings\<close>; the phrase bank it returns is the
  first argument here. The function returns \<^verbatim>\<open>bestIndex\<close> and the console it leaves.
\<close>

definition findClosestPhraseByTags :: "string list \<Rightarrow> string list \<Rightarrow> console \<Rightarrow> int \<times> console" where
  "findClosestPhraseByTags getPhrases tags con =
     (let phrases = getPhrases;
          (bestIndex, bestScore) = phraseLoop phrases tags 0 (- 1, 0)
      in (bestIndex,
          if bestIndex \<ge> 0
          then con @ [Matched tags (phrases ! nat bestIndex) bestScore (length tags)]
          else con))"

subsection \<open>extractTags\<close>

text \<open>
  What reaches \<^verbatim>\<open>extractTags\<close> from outside the file is gathered in a record:
  the environment variable \<^verbatim>\<open>process.env.ANTHROPIC_API_KEY\<close> (unset, or a string), the
  outcome of \<^verbatim>\<open>new Anthropic()\<close> followed by \<^verbatim>\<open>client.messages.create\<close> for a
  given prompt, and the grammar of \<^verbatim>\<open>JSON.parse\<close>.

  A promise is pending, fulfilled with a value or rejected with the value thrown. An
  exception thrown by the client's constructor or by the call, and a rejection of the
  promise the call returns, all surface at the \<^verbatim>\<open>await\<close> inside the \<^verbatim>\<open>try\<close> block; they
  are \<open>Rejected\<close>. A call that never settles is \<open>Pending\<close>.

  A content block of the response is a text block with its text, or a block of another
  type (such as a tool use) with the name of that type.
\<close>

datatype json =
    JNull
  | JBool bool
  | JNumber real
  | JString string
  | JArray "json list"
  | JObject "(string \<times> json) list"

datatype content_block = TextBlock string | OtherBlock string

datatype 'a promise = Pending | Fulfilled 'a | Rejected exn

record env =
  ANTHROPIC_API_KEY :: "string option"
  messages_create :: "string \<Rightarrow> content_block list promise"
  JSON_grammar :: "string \<Rightarrow> json option"

text \<open>
  \<^verbatim>\<open>!process.env.ANTHROPIC_API_KEY\<close> holds when the variable is unset or the empty string.
\<close>

definition truthy :: "string option \<Rightarrow> bool" where
  "truthy v = (case v of None \<Rightarrow> False | Some s \<Rightarrow> s \<noteq> [])"

text \<open>
  \<^verbatim>\<open>JSON.parse(text)\<close> returns the value the text denotes or throws a \<^verbatim>\<open>SyntaxError\<close>.
  Which texts denote which values is left to \<open>JSON_grammar\<close>; that the empty text
  denotes none (a JSON text contains a value) is written out, since the source passes
  the empty text for a block that is not a text block.
\<close>

definition JSON_parse :: "env \<Rightarrow> string \<Rightarrow> exn + json" where
  "JSON_parse E text =
     (if text = [] then Inl SyntaxError
      else case JSON_grammar E text of None \<Rightarrow> Inl SyntaxError | Some v \<Rightarrow> Inr v)"

text \<open>
  The predicate of the filter, \<^verbatim>\<open>typeof t === 'string' && TAG_SET.has(t)\<close>, returning
  the element at its narrowed type \<^verbatim>\<open>string\<close> when it holds.
\<close>

fun validTag :: "json \<Rightarrow> string option" where
  "validTag (JString t) = (if t \<in> TAG_SET then Some t else None)"
| "validTag _ = None"

text \<open>
  The body of the \<^verbatim>\<open>try\<close> block: it returns (fulfilled, with the console it leaves),
  throws (rejected) or waits forever at the \<^verbatim>\<open>await\<close> (pending).
  \<^verbatim>\<open>response.content[0].type\<close> on an empty content array reads a property of
  \<^verbatim>\<open>undefined\<close>, a \<^verbatim>\<open>TypeError\<close>.
\<close>

definition extractTags_try :: "env \<Rightarrow> string \<Rightarrow> console \<Rightarrow> (string list \<times> console) promise" where
  "extractTags_try E prompt con =
     (if \<not> truthy (ANTHROPIC_API_KEY E) then Fulfilled ([], con @ [NoKey])
      else case messages_create E prompt of
          Pending \<Rightarrow> Pending
        | Rejected error \<Rightarrow> Rejected error
        | Fulfilled content \<Rightarrow>
            (case content of
               [] \<Rightarrow> Rejected TypeError
             | block # rest \<Rightarrow>
                 (let text = (case block of TextBlock t \<Rightarrow> t | OtherBlock ty \<Rightarrow> [])
                  in case JSON_parse E text of
                       Inl error \<Rightarrow> Rejected error
                     | Inr tags \<Rightarrow>
                         (case tags of
                            JArray elems \<Rightarrow>
                              (let validTags = List.map_filter validTag elems
                               in Fulfilled (validTags, con @ [Extracted validTags prompt]))
                          | _ \<Rightarrow> Fulfilled ([], con @ [NotArray text])))))"

text \<open>
  The template literal of the \<^verbatim>\<open>catch\<close> clause,
  \<^verbatim>\<open>${error instanceof Error ? error.message : error}\<close>, converts \<^verbatim>\<open>error.message\<close> or
  \<^verbatim>\<open>error\<close> to a string. The function below gives what evaluating it throws, if it throws.
\<close>

fun template_throws :: "exn \<Rightarrow> exn option" where
  "template_throws TypeError = None"
| "template_throws SyntaxError = None"
| "template_throws (ErrorInstance (Converts message)) = None"
| "template_throws (ErrorInstance (ConversionThrows e)) = Some e"
| "template_throws (NonError (Converts s)) = None"
| "template_throws (NonError (ConversionThrows e)) = Some e"

text \<open>
  The whole function. The \<^verbatim>\<open>catch\<close> clause logs the failure and returns the empty list;
  when building the log line throws, that exception leaves the \<^verbatim>\<open>catch\<close> clause, nothing
  is logged, and the promise of the \<^verbatim>\<open>async\<close> function is rejected with it.
\<close>

definition extractTags :: "env \<Rightarrow> string \<Rightarrow> console \<Rightarrow> string list promise \<times> console" where
  "extractTags E prompt con =
     (case extractTags_try E prompt con of
        Pending \<Rightarrow> (Pending, con)
      | Fulfilled (validTags, con') \<Rightarrow> (Fulfilled validTags, con')
      | Rejected error \<Rightarrow>
          (case template_throws error of
             None \<Rightarrow> (Fulfilled [], con @ [Failed error])
           | Some e \<Rightarrow> (Rejected e, con)))"

subsection \<open>The specification's score\<close>

text \<open>
  The score of phrase \<open>j\<close> as the specification words it: the count of tags whose
  lowercased form occurs as a substring of the lowercased phrase text.
\<close>

definition spec_score :: "string list \<Rightarrow> string list \<Rightarrow> nat \<Rightarrow> nat" where
  "spec_score phrases tags j =
     length (filter (\<lambda>tag. includes_str (toLowerCase (phrases ! j)) (toLowerCase tag)) tags)"

subsection \<open>Letter case\<close>



subsection \<open>The invariant of the outer loop\<close>

text \<open>
  After the first \<open>i\<close> phrases, either no phrase so far has a positive score and the pair
  is still \<open>(-1, 0)\<close>, or \<open>bestIndex\<close> is the first phrase so far whose score is the
  highest so far, and \<open>bestScore\<close> is that score.
\<close>

definition best_of_prefix :: "string list \<Rightarrow> string list \<Rightarrow> nat \<Rightarrow> int \<times> nat \<Rightarrow> bool" where
  "best_of_prefix phrases tags i best =
     (case best of (bestIndex, bestScore) \<Rightarrow>
        (bestIndex = - 1 \<and> bestScore = 0 \<and> (\<forall>j<i. spec_score phrases tags j = 0)) \<or>
        (\<exists>k<i. bestIndex = int k \<and> bestScore = spec_score phrases tags k \<and> 0 < bestScore \<and>
           (\<forall>j<i. spec_score phrases tags j \<le> bestScore) \<and>
           (\<forall>j<k. spec_score phrases tags j < bestScore)))"

section \<open>Properties\<close>

subsection \<open>The vocabulary\<close>

text \<open>
  C6, as the code has it: the canonical tag vocabulary is a fixed enumerated list of exactly
  34 distinct terms, so the set built from it has 34 members.
\<close>

theorem TAGS_has_34_terms:
  "length TAGS = 34 \<and> distinct TAGS \<and> card TAG_SET = 34"
proof -
  have d: "distinct TAGS" by (simp add: TAGS_def)
  have l: "length TAGS = 34" by (simp add: TAGS_def)
  from d l have "card TAG_SET = 34"
    unfolding TAG_SET_def by (simp add: distinct_card)
  with d l show ?thesis by simp
qed

text \<open>C6, as the specification words it: the vocabulary does not have 33 terms.\<close>

theorem TAGS_not_33_terms:
  "length TAGS \<noteq> 33 \<and> card TAG_SET \<noteq> 33"
proof -
  have d: "distinct TAGS" by (simp add: TAGS_def)
  have l: "length TAGS = 34" by (simp add: TAGS_def)
  from d l have "card TAG_SET = 34"
    unfolding TAG_SET_def by (simp add: distinct_card)
  with l show ?thesis by simp
qed

subsection \<open>Substrings\<close>

text \<open>
  The two string tests decide what their names say: \<open>x\<close> is a prefix of \<open>s\<close>,
  respectively \<open>x\<close> occurs in \<open>s\<close> between some \<open>p\<close> and some \<open>q\<close>.
\<close>

lemma startsWith_iff: "startsWith s x \<longleftrightarrow> (\<exists>q. s = x @ q)"
  by (induction s x rule: startsWith.induct) auto

lemma includes_str_iff: "includes_str s x \<longleftrightarrow> (\<exists>p q. s = p @ x @ q)"
proof (induction s)
  case Nil
  then show ?case by simp
next
  case (Cons c s)
  show ?case
  proof
    assume "includes_str (c # s) x"
    then consider "startsWith (c # s) x" | "includes_str s x" by auto
    then show "\<exists>p q. c # s = p @ x @ q"
    proof cases
      case 1
      then obtain q where "c # s = x @ q" by (auto simp: startsWith_iff)
      then have "c # s = [] @ x @ q" by simp
      then show ?thesis by blast
    next
      case 2
      with Cons.IH obtain p q where "s = p @ x @ q" by blast
      then have "c # s = (c # p) @ x @ q" by simp
      then show ?thesis by blast
    qed
  next
    assume "\<exists>p q. c # s = p @ x @ q"
    then obtain p q where pq: "c # s = p @ x @ q" by blast
    show "includes_str (c # s) x"
    proof (cases p)
      case Nil
      with pq have "c # s = x @ q" by simp
      then have "startsWith (c # s) x" using startsWith_iff by blast
      then show ?thesis by simp
    next
      case (Cons d p')
      with pq have "s = p' @ x @ q" by simp
      with Cons.IH have "includes_str s x" by blast
      then show ?thesis by simp
    qed
  qed
qed

subsection \<open>The two loops\<close>

text \<open>
  The inner loop adds to \<open>score\<close> the number of tags that pass the test, so from 0 it
  computes the score of the specification.
\<close>

lemma tagLoop_eq:
  "tagLoop phrase tags score =
     score + length (filter (\<lambda>tag. includes_str phrase (toLowerCase tag)) tags)"
  by (induction tags arbitrary: score) auto

lemma tagLoop_spec_score:
  "tagLoop (toLowerCase (phrases ! i)) tags 0 = spec_score phrases tags i"
  by (simp add: tagLoop_eq spec_score_def)


text \<open>
  The invariant of the outer loop is \<open>best_of_prefix\<close>. It holds at the start, each
  iteration keeps it, whether the best is replaced or kept, and so it holds of the result
  for the whole bank.
\<close>

lemma best_of_prefix_init: "best_of_prefix phrases tags 0 (- 1, 0)"
  by (simp add: best_of_prefix_def)

lemma best_of_prefix_keep:
  assumes "best_of_prefix phrases tags i (bestIndex, bestScore)"
    and "\<not> spec_score phrases tags i > bestScore"
  shows "best_of_prefix phrases tags (Suc i) (bestIndex, bestScore)"
  using assms unfolding best_of_prefix_def
  by (auto simp: less_Suc_eq)

lemma best_of_prefix_replace:
  assumes "best_of_prefix phrases tags i (bestIndex, bestScore)"
    and "spec_score phrases tags i > bestScore"
  shows "best_of_prefix phrases tags (Suc i) (int i, spec_score phrases tags i)"
  using assms unfolding best_of_prefix_def
  by (auto simp: less_Suc_eq intro: less_imp_le order.strict_trans1)

lemma phraseLoop_best:
  "best_of_prefix phrases tags i best \<Longrightarrow> i \<le> length phrases \<Longrightarrow>
   best_of_prefix phrases tags (length phrases) (phraseLoop phrases tags i best)"
proof (induction phrases tags i best rule: phraseLoop.induct)
  case (1 phrases tags i bestIndex bestScore)
  show ?case
  proof (cases "i < length phrases")
    case False
    with "1.prems" have "i = length phrases" by simp
    with "1.prems" show ?thesis by (simp add: phraseLoop.simps)
  next
    case True
    show ?thesis
    proof (cases "spec_score phrases tags i > bestScore")
      case better: True
      from "1.prems"(1) better
      have "best_of_prefix phrases tags (i + 1) (int i, spec_score phrases tags i)"
        by (simp add: best_of_prefix_replace)
      with "1.IH"(1) True better show ?thesis
        by (simp add: phraseLoop.simps [of phrases tags i] tagLoop_spec_score)
    next
      case False
      from "1.prems"(1) False
      have "best_of_prefix phrases tags (i + 1) (bestIndex, bestScore)"
        by (simp add: best_of_prefix_keep)
      with "1.IH"(2) True False show ?thesis
        by (simp add: phraseLoop.simps [of phrases tags i] tagLoop_spec_score)
    qed
  qed
qed

lemma phraseLoop_best_all:
  "best_of_prefix phrases tags (length phrases) (phraseLoop phrases tags 0 (- 1, 0))"
  by (rule phraseLoop_best [OF best_of_prefix_init]) simp

lemma fst_findClosestPhraseByTags:
  "fst (findClosestPhraseByTags phrases tags con) = fst (phraseLoop phrases tags 0 (- 1, 0))"
  by (simp add: findClosestPhraseByTags_def split: prod.split)

lemma findClosestPhraseByTags_cases:
  "(fst (findClosestPhraseByTags phrases tags con) = - 1 \<and>
      (\<forall>j<length phrases. spec_score phrases tags j = 0)) \<or>
   (\<exists>k<length phrases. fst (findClosestPhraseByTags phrases tags con) = int k \<and>
      0 < spec_score phrases tags k \<and>
      (\<forall>j<length phrases. spec_score phrases tags j \<le> spec_score phrases tags k) \<and>
      (\<forall>j<k. spec_score phrases tags j < spec_score phrases tags k))"
proof -
  obtain bestIndex bestScore where b: "phraseLoop phrases tags 0 (- 1, 0) = (bestIndex, bestScore)"
    by (cases "phraseLoop phrases tags 0 (- 1, 0)")
  have "best_of_prefix phrases tags (length phrases) (bestIndex, bestScore)"
    using phraseLoop_best_all [of phrases tags] b by simp
  moreover have "fst (findClosestPhraseByTags phrases tags con) = bestIndex"
    using b by (simp add: fst_findClosestPhraseByTags)
  ultimately show ?thesis
    unfolding best_of_prefix_def by fastforce
qed

lemma findClosestPhraseByTags_result:
  "(findClosestPhraseByTags phrases tags con = (- 1, con) \<and>
      (\<forall>j<length phrases. spec_score phrases tags j = 0)) \<or>
   (\<exists>k<length phrases.
      findClosestPhraseByTags phrases tags con =
        (int k, con @ [Matched tags (phrases ! k) (spec_score phrases tags k) (length tags)]) \<and>
      0 < spec_score phrases tags k \<and>
      (\<forall>j<length phrases. spec_score phrases tags j \<le> spec_score phrases tags k) \<and>
      (\<forall>j<k. spec_score phrases tags j < spec_score phrases tags k))"
proof -
  obtain bestIndex bestScore where b: "phraseLoop phrases tags 0 (- 1, 0) = (bestIndex, bestScore)"
    by (cases "phraseLoop phrases tags 0 (- 1, 0)")
  have f: "findClosestPhraseByTags phrases tags con =
      (bestIndex, if bestIndex \<ge> 0
         then con @ [Matched tags (phrases ! nat bestIndex) bestScore (length tags)] else con)"
    using b by (simp add: findClosestPhraseByTags_def)
  have "best_of_prefix phrases tags (length phrases) (bestIndex, bestScore)"
    using phraseLoop_best_all [of phrases tags] b by simp
  then consider
      (none) "bestIndex = - 1" "bestScore = 0" "\<forall>j<length phrases. spec_score phrases tags j = 0"
    | (some) k where "k < length phrases" "bestIndex = int k" "bestScore = spec_score phrases tags k"
        "0 < bestScore" "\<forall>j<length phrases. spec_score phrases tags j \<le> bestScore"
        "\<forall>j<k. spec_score phrases tags j < bestScore"
    unfolding best_of_prefix_def by fastforce
  then show ?thesis
  proof cases
    case none
    with f have "findClosestPhraseByTags phrases tags con = (- 1, con)" by simp
    with none(3) show ?thesis by blast
  next
    case some
    with f have "findClosestPhraseByTags phrases tags con =
        (int k, con @ [Matched tags (phrases ! k) (spec_score phrases tags k) (length tags)])"
      by simp
    with some show ?thesis by blast
  qed
qed


text \<open>
  The two runs of the example bank.
\<close>

lemma bank_rain_piano:
  "phraseLoop [''rainy piano night'', ''upbeat guitar jam''] [''rain'', ''piano''] 0 (- 1, 0) = (0, 2)"
  by code_simp

lemma bank_space:
  "phraseLoop [''rainy piano night'', ''upbeat guitar jam''] [''space''] 0 (- 1, 0) = (- 1, 0)"
  by code_simp


subsection \<open>The matcher\<close>

text \<open>
  C1, as the specification words it, asks for the first phrase of highest score on every
  input. On the bank \<open>a\<close>, \<open>b\<close> with the tag \<open>z\<close> both phrases tie on the highest
  score, which is 0, and the function does not return index 0, the first of them: it
  returns \<open>-1\<close>.
\<close>

theorem findClosestPhraseByTags_tie_at_zero:
  "spec_score [''a'', ''b''] [''z''] 0 = 0 \<and>
   spec_score [''a'', ''b''] [''z''] 1 = 0 \<and>
   fst (findClosestPhraseByTags [''a'', ''b''] [''z''] []) \<noteq> 0 \<and>
   fst (findClosestPhraseByTags [''a'', ''b''] [''z''] []) = - 1"
  by code_simp

text \<open>
  C1, as the code has it: whenever some phrase has a positive score, the function returns
  the index \<open>k\<close> of a phrase of highest score, and every phrase before \<open>k\<close> has a
  strictly lower score, so \<open>k\<close> is the first phrase of highest score in bank order.
\<close>

theorem findClosestPhraseByTags_first_best:
  assumes "\<exists>j<length phrases. 0 < spec_score phrases tags j"
  shows "\<exists>k<length phrases.
           fst (findClosestPhraseByTags phrases tags con) = int k \<and>
           (\<forall>j<length phrases. spec_score phrases tags j \<le> spec_score phrases tags k) \<and>
           (\<forall>j<k. spec_score phrases tags j < spec_score phrases tags k)"
proof -
  from assms have "\<not> (\<forall>j<length phrases. spec_score phrases tags j = 0)" by auto
  with findClosestPhraseByTags_cases [of phrases tags con] show ?thesis by blast
qed

text \<open>
  An instance with a tie: phrases 0 and 1 both score 2, and the function returns 0.
\<close>

theorem findClosestPhraseByTags_first_best_witness:
  "(\<exists>j<length [''rainy piano night'', ''piano in the rain'', ''upbeat guitar jam''].
      0 < spec_score [''rainy piano night'', ''piano in the rain'', ''upbeat guitar jam'']
            [''rain'', ''piano''] j) \<and>
   fst (findClosestPhraseByTags [''rainy piano night'', ''piano in the rain'', ''upbeat guitar jam'']
          [''rain'', ''piano''] []) = 0"
proof -
  let ?P = "[''rainy piano night'', ''piano in the rain'', ''upbeat guitar jam'']"
  let ?T = "[''rain'', ''piano'']"
  have s0: "spec_score ?P ?T 0 = 2" by code_simp
  have s1: "spec_score ?P ?T 1 = 2" by code_simp
  have s2: "spec_score ?P ?T 2 = 0" by code_simp
  have l: "length ?P = 3" by simp
  from s0 l have h: "\<exists>j<length ?P. 0 < spec_score ?P ?T j" by auto
  from findClosestPhraseByTags_first_best [OF h, of "[]"]
  obtain k where k: "k < length ?P" "fst (findClosestPhraseByTags ?P ?T []) = int k"
    "\<forall>j<length ?P. spec_score ?P ?T j \<le> spec_score ?P ?T k"
    "\<forall>j<k. spec_score ?P ?T j < spec_score ?P ?T k"
    by blast
  from k(1) l have "k = 0 \<or> k = 1 \<or> k = 2" by auto
  then have "k = 0"
  proof (elim disjE)
    assume "k = 0" then show ?thesis .
  next
    assume "k = 1"
    with k(4) have "spec_score ?P ?T 0 < spec_score ?P ?T 1" by simp
    with s0 s1 show ?thesis by simp
  next
    assume "k = 2"
    with k(4) have "spec_score ?P ?T 0 < spec_score ?P ?T 2" by simp
    with s0 s2 show ?thesis by simp
  qed
  with k(2) h show ?thesis by simp
qed

text \<open>
  C2: the function returns \<open>-1\<close> exactly when every phrase has score 0, that is, when no
  lowercased tag occurs as a substring of any lowercased phrase; for the empty tag list it
  returns \<open>-1\<close> on every bank.
\<close>

theorem findClosestPhraseByTags_no_match_iff:
  "(fst (findClosestPhraseByTags phrases tags con) = - 1 \<longleftrightarrow>
      (\<forall>j<length phrases. spec_score phrases tags j = 0)) \<and>
   (fst (findClosestPhraseByTags phrases tags con) = - 1 \<longleftrightarrow>
      (\<forall>j<length phrases. \<forall>tag\<in>set tags.
         \<not> (\<exists>p q. toLowerCase (phrases ! j) = p @ toLowerCase tag @ q))) \<and>
   fst (findClosestPhraseByTags phrases [] con) = - 1"
proof -
  have a: "fst (findClosestPhraseByTags phrases tags con) = - 1 \<longleftrightarrow>
      (\<forall>j<length phrases. spec_score phrases tags j = 0)" for tags
  proof
    assume r: "fst (findClosestPhraseByTags phrases tags con) = - 1"
    have "int k \<noteq> - 1" for k by simp
    with r findClosestPhraseByTags_cases [of phrases tags con]
    show "\<forall>j<length phrases. spec_score phrases tags j = 0" by metis
  next
    assume z: "\<forall>j<length phrases. spec_score phrases tags j = 0"
    then have "\<not> (\<exists>k<length phrases. 0 < spec_score phrases tags k)" by simp
    with findClosestPhraseByTags_cases [of phrases tags con]
    show "fst (findClosestPhraseByTags phrases tags con) = - 1" by blast
  qed
  have b: "spec_score phrases tags j = 0 \<longleftrightarrow>
      (\<forall>tag\<in>set tags. \<not> (\<exists>p q. toLowerCase (phrases ! j) = p @ toLowerCase tag @ q))" for j
    by (simp add: spec_score_def filter_empty_conv includes_str_iff)
  have c: "fst (findClosestPhraseByTags phrases [] con) = - 1"
    by (simp add: a spec_score_def)
  from a [of tags] b c show ?thesis by simp
qed

text \<open>
  On the example bank no phrase contains \<open>space\<close>, and the result is \<open>-1\<close>; some
  phrase contains \<open>rain\<close>, and the result is not \<open>-1\<close>.
\<close>

theorem findClosestPhraseByTags_no_match_iff_witness:
  "length [''rainy piano night'', ''upbeat guitar jam''] = 2 \<and>
   spec_score [''rainy piano night'', ''upbeat guitar jam''] [''space''] 0 = 0 \<and>
   spec_score [''rainy piano night'', ''upbeat guitar jam''] [''space''] 1 = 0 \<and>
   fst (findClosestPhraseByTags [''rainy piano night'', ''upbeat guitar jam''] [''space''] []) = - 1 \<and>
   fst (findClosestPhraseByTags [''rainy piano night'', ''upbeat guitar jam''] [] []) = - 1 \<and>
   fst (findClosestPhraseByTags [''rainy piano night'', ''upbeat guitar jam''] [''rain''] []) = 0 \<and>
   \<not> (\<forall>j<length [''rainy piano night'', ''upbeat guitar jam''].
      spec_score [''rainy piano night'', ''upbeat guitar jam''] [''rain''] j = 0)"
proof -
  let ?P = "[''rainy piano night'', ''upbeat guitar jam'']"
  have s0: "spec_score ?P [''space''] 0 = 0" by code_simp
  have s1: "spec_score ?P [''space''] 1 = 0" by code_simp
  have h: "\<forall>j<length ?P. spec_score ?P [''space''] j = 0"
  proof (intro allI impI)
    fix j assume "j < length ?P"
    then have "j = 0 \<or> j = 1" by auto
    with s0 s1 show "spec_score ?P [''space''] j = 0" by auto
  qed
  with findClosestPhraseByTags_no_match_iff [of ?P "[''space'']" "[]"]
  have a: "fst (findClosestPhraseByTags ?P [''space''] []) = - 1 \<and>
    fst (findClosestPhraseByTags ?P [] []) = - 1" by blast
  have r: "fst (findClosestPhraseByTags ?P [''rain''] []) = 0" by code_simp
  then have "fst (findClosestPhraseByTags ?P [''rain''] []) \<noteq> - 1" by simp
  with findClosestPhraseByTags_no_match_iff [of ?P "[''rain'']" "[]"]
  have b: "\<not> (\<forall>j<length ?P. spec_score ?P [''rain''] j = 0)" by blast
  have l: "length ?P = 2" by simp
  from l s0 s1 a r b show ?thesis by blast
qed

text \<open>
  C5: on the bank of the specification's example, the tags \<open>rain\<close>, \<open>piano\<close> give index 0
  with score 2 (the score is what the console entry records, out of 2 tags), and the tag
  \<open>space\<close> gives \<open>-1\<close> with nothing written.
\<close>

theorem findClosestPhraseByTags_example:
  "findClosestPhraseByTags [''rainy piano night'', ''upbeat guitar jam''] [''rain'', ''piano''] con
     = (0, con @ [Matched [''rain'', ''piano''] ''rainy piano night'' 2 2]) \<and>
   findClosestPhraseByTags [''rainy piano night'', ''upbeat guitar jam''] [''space''] con
     = (- 1, con)"
  by (simp add: findClosestPhraseByTags_def bank_rain_piano bank_space)




text \<open>
  C8: the function tests no tag for membership in the vocabulary. The score of a phrase
  is the number of tags, whatever strings they are, whose lowercased form occurs as a
  substring of the lowercased phrase. The function returns \<open>-1\<close> and writes nothing when
  every phrase has score 0; otherwise it returns the first phrase of highest score and
  writes that phrase with its score out of the number of tags. And in the inner loop a
  tag, wherever it stands in the list, adds one to the score exactly when it occurs.
\<close>

theorem findClosestPhraseByTags_no_validation:
  "spec_score phrases tags i =
     length (filter (\<lambda>tag. \<exists>p q. toLowerCase (phrases ! i) = p @ toLowerCase tag @ q) tags) \<and>
   ((findClosestPhraseByTags phrases tags con = (- 1, con) \<and>
       (\<forall>j<length phrases. spec_score phrases tags j = 0)) \<or>
    (\<exists>k<length phrases.
       findClosestPhraseByTags phrases tags con =
         (int k, con @ [Matched tags (phrases ! k) (spec_score phrases tags k) (length tags)]) \<and>
       0 < spec_score phrases tags k \<and>
       (\<forall>j<length phrases. spec_score phrases tags j \<le> spec_score phrases tags k) \<and>
       (\<forall>j<k. spec_score phrases tags j < spec_score phrases tags k))) \<and>
   tagLoop (toLowerCase phrase) (tags1 @ tag # tags2) 0 =
     tagLoop (toLowerCase phrase) (tags1 @ tags2) 0 +
     (if \<exists>p q. toLowerCase phrase = p @ toLowerCase tag @ q then 1 else 0)"
proof -
  have a: "spec_score phrases tags i =
     length (filter (\<lambda>tag. \<exists>p q. toLowerCase (phrases ! i) = p @ toLowerCase tag @ q) tags)"
    by (simp add: spec_score_def includes_str_iff)
  have c: "tagLoop (toLowerCase phrase) (tags1 @ tag # tags2) 0 =
     tagLoop (toLowerCase phrase) (tags1 @ tags2) 0 +
     (if \<exists>p q. toLowerCase phrase = p @ toLowerCase tag @ q then 1 else 0)"
    by (simp add: tagLoop_eq includes_str_iff)
  from a findClosestPhraseByTags_result [of phrases tags con] c show ?thesis
    by (intro conjI)
qed

text \<open>
  The tag \<open>Jam\<close> is not in the vocabulary and occurs (lowercased) in the second phrase
  of the example bank: the function returns index 1 with score 1 out of 1.
\<close>

theorem findClosestPhraseByTags_no_validation_witness:
  "''Jam'' \<notin> TAG_SET \<and>
   (\<exists>p q. toLowerCase ''upbeat guitar jam'' = p @ toLowerCase ''Jam'' @ q) \<and>
   findClosestPhraseByTags [''rainy piano night'', ''upbeat guitar jam''] [''Jam''] []
     = (1, [Matched [''Jam''] ''upbeat guitar jam'' 1 1])"
proof -
  let ?P = "[''rainy piano night'', ''upbeat guitar jam'']"
  let ?T = "[''Jam'']"
  note w = findClosestPhraseByTags_no_validation
    [of ?P ?T 1 "[]" "''upbeat guitar jam''" "[]" "''Jam''" "[]"]
  have n: "''Jam'' \<notin> TAG_SET" by (simp add: TAG_SET_def TAGS_def)
  have s0: "spec_score ?P ?T 0 = 0" by code_simp
  have s1: "spec_score ?P ?T 1 = 1" by code_simp
  from w s1 have "length (filter (\<lambda>tag. \<exists>p q. toLowerCase (?P ! 1) = p @ toLowerCase tag @ q) ?T) = 1"
    by simp
  then have o: "\<exists>p q. toLowerCase ''upbeat guitar jam'' = p @ toLowerCase ''Jam'' @ q"
    by (auto split: if_splits)
  from s1 have "\<not> (\<forall>j<length ?P. spec_score ?P ?T j = 0)" by auto
  with w obtain k where k: "k < length ?P"
    "findClosestPhraseByTags ?P ?T [] =
       (int k, [] @ [Matched ?T (?P ! k) (spec_score ?P ?T k) (length ?T)])"
    "0 < spec_score ?P ?T k"
    by blast
  from k(1) have "k = 0 \<or> k = 1" by auto
  with k(3) s0 have "k = 1" by auto
  with k(2) s1 have "findClosestPhraseByTags ?P ?T [] = (1, [Matched ?T ''upbeat guitar jam'' 1 1])"
    by simp
  with n o show ?thesis by blast
qed

text \<open>
  C10: the index returned is \<open>-1\<close> or lies in the range from 0 up to, not including,
  the number of phrases; on the empty bank it is \<open>-1\<close> for every tag list.
\<close>

theorem findClosestPhraseByTags_range:
  "(fst (findClosestPhraseByTags phrases tags con) = - 1 \<or>
      (0 \<le> fst (findClosestPhraseByTags phrases tags con) \<and>
       fst (findClosestPhraseByTags phrases tags con) < int (length phrases))) \<and>
   fst (findClosestPhraseByTags [] tags con) = - 1"
proof -
  have e: "fst (findClosestPhraseByTags [] tags con) = - 1"
    using findClosestPhraseByTags_cases [of "[]" tags con] by simp
  from findClosestPhraseByTags_cases [of phrases tags con]
  have "fst (findClosestPhraseByTags phrases tags con) = - 1 \<or>
      (\<exists>k<length phrases. fst (findClosestPhraseByTags phrases tags con) = int k)"
    by blast
  then have "fst (findClosestPhraseByTags phrases tags con) = - 1 \<or>
      (0 \<le> fst (findClosestPhraseByTags phrases tags con) \<and>
       fst (findClosestPhraseByTags phrases tags con) < int (length phrases))"
    by auto
  with e show ?thesis by simp
qed

text \<open>
  On the example bank the tag \<open>guitar\<close> gives index 1, inside the range; on the empty
  bank it gives \<open>-1\<close>.
\<close>

theorem findClosestPhraseByTags_range_witness:
  "fst (findClosestPhraseByTags [''rainy piano night'', ''upbeat guitar jam''] [''guitar''] []) = 1 \<and>
   0 \<le> fst (findClosestPhraseByTags [''rainy piano night'', ''upbeat guitar jam''] [''guitar''] []) \<and>
   fst (findClosestPhraseByTags [''rainy piano night'', ''upbeat guitar jam''] [''guitar''] [])
     < int (length [''rainy piano night'', ''upbeat guitar jam'']) \<and>
   fst (findClosestPhraseByTags [] [''guitar''] []) = - 1"
proof -
  let ?P = "[''rainy piano night'', ''upbeat guitar jam'']"
  have r: "fst (findClosestPhraseByTags ?P [''guitar''] []) = 1" by code_simp
  then have "fst (findClosestPhraseByTags ?P [''guitar''] []) \<noteq> - 1" by simp
  with r findClosestPhraseByTags_range [of ?P "[''guitar'']" "[]"]
  show ?thesis by blast
qed

subsection \<open>The tag extractor\<close>

lemma extractTags_try_no_key:
  "\<not> truthy (ANTHROPIC_API_KEY E) \<Longrightarrow>
   extractTags_try E prompt con = Fulfilled ([], con @ [NoKey])"
  by (simp add: extractTags_try_def)

lemma extractTags_try_pending_iff:
  "extractTags_try E prompt con = Pending \<longleftrightarrow>
     truthy (ANTHROPIC_API_KEY E) \<and> messages_create E prompt = Pending"
  by (auto simp: extractTags_try_def Let_def
      split: promise.splits list.splits sum.splits json.splits content_block.splits)

lemma fst_extractTags:
  "fst (extractTags E prompt con) =
     (case extractTags_try E prompt con of
        Pending \<Rightarrow> Pending
      | Fulfilled r \<Rightarrow> Fulfilled (fst r)
      | Rejected error \<Rightarrow>
          (case template_throws error of None \<Rightarrow> Fulfilled [] | Some e \<Rightarrow> Rejected e))"
  by (simp add: extractTags_def split: promise.splits prod.splits option.splits)

lemma map_filter_validTag:
  "List.map_filter validTag elems = [t. JString t \<leftarrow> elems, t \<in> TAG_SET]"
proof (induction elems)
  case Nil
  show ?case by (simp add: List.map_filter_simps)
next
  case (Cons v elems)
  then show ?case by (cases v) (simp_all add: List.map_filter_simps)
qed

lemma set_map_filter_validTag: "set (List.map_filter validTag elems) \<subseteq> TAG_SET"
  by (auto simp: map_filter_validTag split: json.splits if_splits)

lemma extractTags_try_rejected:
  "extractTags_try E prompt con = Rejected error \<Longrightarrow>
   error = TypeError \<or> error = SyntaxError \<or>
   (truthy (ANTHROPIC_API_KEY E) \<and> messages_create E prompt = Rejected error)"
  by (auto simp: extractTags_try_def JSON_parse_def Let_def
      split: if_splits promise.splits list.splits sum.splits json.splits option.splits)

text \<open>
  What the function does guarantee. It is fulfilled with the empty list when the
  credential is missing (no call is made), when the call throws or is rejected with a
  value the log line of the \<^verbatim>\<open>catch\<close> clause can be built from, when the
  response has no content block, when the first block is not a text block, when the text
  is not valid JSON, and when the JSON value is not an array. It is rejected exactly when
  the call throws or is rejected with a value from which the log line cannot be built.
\<close>

lemma extractTags_rejected_iff:
  "fst (extractTags E prompt con) = Rejected e \<longleftrightarrow>
     truthy (ANTHROPIC_API_KEY E) \<and>
     (\<exists>error. messages_create E prompt = Rejected error \<and> template_throws error = Some e)"
proof
  assume r: "fst (extractTags E prompt con) = Rejected e"
  then obtain error where t: "extractTags_try E prompt con = Rejected error"
    and c: "template_throws error = Some e"
    by (auto simp: fst_extractTags split: promise.splits option.splits)
  from c have "error \<noteq> TypeError" "error \<noteq> SyntaxError" by auto
  with extractTags_try_rejected [OF t] c
  show "truthy (ANTHROPIC_API_KEY E) \<and>
     (\<exists>error. messages_create E prompt = Rejected error \<and> template_throws error = Some e)"
    by blast
next
  assume "truthy (ANTHROPIC_API_KEY E) \<and>
     (\<exists>error. messages_create E prompt = Rejected error \<and> template_throws error = Some e)"
  then obtain error where "truthy (ANTHROPIC_API_KEY E)"
    "messages_create E prompt = Rejected error" "template_throws error = Some e"
    by blast
  then show "fst (extractTags E prompt con) = Rejected e"
    by (simp add: fst_extractTags extractTags_try_def)
qed

lemma extractTags_failures:
  "(\<not> truthy (ANTHROPIC_API_KEY E) \<longrightarrow>
      fst (extractTags E prompt con) = Fulfilled []) \<and>
   (truthy (ANTHROPIC_API_KEY E) \<and> messages_create E prompt = Rejected error \<and>
    template_throws error = None \<longrightarrow>
      fst (extractTags E prompt con) = Fulfilled []) \<and>
   (truthy (ANTHROPIC_API_KEY E) \<and> messages_create E prompt = Fulfilled [] \<longrightarrow>
      fst (extractTags E prompt con) = Fulfilled []) \<and>
   (truthy (ANTHROPIC_API_KEY E) \<and> messages_create E prompt = Fulfilled (OtherBlock ty # rest) \<longrightarrow>
      fst (extractTags E prompt con) = Fulfilled []) \<and>
   (truthy (ANTHROPIC_API_KEY E) \<and> messages_create E prompt = Fulfilled (TextBlock reply # rest) \<and>
    JSON_parse E reply = Inl error' \<longrightarrow>
      fst (extractTags E prompt con) = Fulfilled []) \<and>
   (truthy (ANTHROPIC_API_KEY E) \<and> messages_create E prompt = Fulfilled (TextBlock reply # rest) \<and>
    JSON_parse E reply = Inr tags \<and> (\<forall>elems. tags \<noteq> JArray elems) \<longrightarrow>
      fst (extractTags E prompt con) = Fulfilled [])"
proof -
  have no_key: "fst (extractTags E prompt con) = Fulfilled []"
    if "\<not> truthy (ANTHROPIC_API_KEY E)"
    using that by (simp add: fst_extractTags extractTags_try_no_key)
  have rejected: "fst (extractTags E prompt con) = Fulfilled []"
    if "truthy (ANTHROPIC_API_KEY E)" "messages_create E prompt = Rejected error"
      "template_throws error = None"
    using that by (simp add: fst_extractTags extractTags_try_def)
  have empty: "fst (extractTags E prompt con) = Fulfilled []"
    if "truthy (ANTHROPIC_API_KEY E)" "messages_create E prompt = Fulfilled []"
    using that by (simp add: fst_extractTags extractTags_try_def)
  have other: "fst (extractTags E prompt con) = Fulfilled []"
    if "truthy (ANTHROPIC_API_KEY E)" "messages_create E prompt = Fulfilled (OtherBlock ty # rest)"
    using that by (simp add: fst_extractTags extractTags_try_def JSON_parse_def)
  have invalid: "fst (extractTags E prompt con) = Fulfilled []"
    if "truthy (ANTHROPIC_API_KEY E)" "messages_create E prompt = Fulfilled (TextBlock reply # rest)"
      "JSON_parse E reply = Inl error'"
  proof -
    from that(3) have "error' = SyntaxError"
      by (auto simp: JSON_parse_def split: if_splits option.splits)
    with that show ?thesis by (simp add: fst_extractTags extractTags_try_def)
  qed
  have not_array: "fst (extractTags E prompt con) = Fulfilled []"
    if "truthy (ANTHROPIC_API_KEY E)" "messages_create E prompt = Fulfilled (TextBlock reply # rest)"
      "JSON_parse E reply = Inr tags" "\<forall>elems. tags \<noteq> JArray elems"
    using that by (cases tags) (simp_all add: fst_extractTags extractTags_try_def)
  from no_key rejected empty other invalid not_array
  show ?thesis by blast
qed

text \<open>
  C3 fails on the code. With the credential set, let the call throw (or its promise be
  rejected with) a value that cannot be converted to a string, such as a Symbol or an
  object with a null prototype, or an instance of \<^verbatim>\<open>Error\<close> whose message is such a
  value. The \<^verbatim>\<open>catch\<close> clause catches it, and building its log line throws a
  \<^verbatim>\<open>TypeError\<close>, with which the promise \<^verbatim>\<open>extractTags\<close> returns is rejected: the
  function raises to its caller, against its own documentation (\<^verbatim>\<open>Never throws\<close>).
\<close>

theorem extractTags_rejects_when_log_line_throws:
  "fst (extractTags \<lparr>ANTHROPIC_API_KEY = Some ''key'',
          messages_create = (\<lambda>prompt. Rejected (NonError (ConversionThrows TypeError))),
          JSON_grammar = (\<lambda>text. None)\<rparr> ''rainy day'' []) = Rejected TypeError \<and>
   fst (extractTags \<lparr>ANTHROPIC_API_KEY = Some ''key'',
          messages_create = (\<lambda>prompt. Rejected (ErrorInstance (ConversionThrows TypeError))),
          JSON_grammar = (\<lambda>text. None)\<rparr> ''rainy day'' []) = Rejected TypeError"
  by (simp add: extractTags_def extractTags_try_def truthy_def)

text \<open>
  C4: every string of a list \<^verbatim>\<open>extractTags\<close> resolves to is a member of the vocabulary;
  when the model's text parses to an array, the list holds, in order, exactly the elements
  that are strings and equal to a term of the vocabulary, character for character.
\<close>

theorem extractTags_only_vocabulary:
  "(fst (extractTags E prompt con) = Fulfilled validTags \<longrightarrow> set validTags \<subseteq> TAG_SET) \<and>
   (truthy (ANTHROPIC_API_KEY E) \<and> messages_create E prompt = Fulfilled (TextBlock reply # rest) \<and>
    JSON_parse E reply = Inr (JArray elems) \<longrightarrow>
      fst (extractTags E prompt con) = Fulfilled [t. JString t \<leftarrow> elems, t \<in> TAG_SET])"
proof -
  have sub: "set validTags \<subseteq> TAG_SET" if "fst (extractTags E prompt con) = Fulfilled validTags"
  proof (cases "extractTags_try E prompt con")
    case Pending
    with that show ?thesis by (simp add: fst_extractTags)
  next
    case (Rejected error)
    with that show ?thesis by (auto simp: fst_extractTags split: option.splits)
  next
    case (Fulfilled r)
    with that have v: "validTags = fst r" by (simp add: fst_extractTags)
    from Fulfilled have "fst r = [] \<or> (\<exists>elems. fst r = List.map_filter validTag elems)"
      by (auto simp: extractTags_try_def Let_def
          split: if_splits promise.splits list.splits sum.splits json.splits)
    then show ?thesis
    proof
      assume "fst r = []"
      with v show ?thesis by simp
    next
      assume "\<exists>elems. fst r = List.map_filter validTag elems"
      then obtain elems where "fst r = List.map_filter validTag elems" by blast
      with v show ?thesis by (simp add: set_map_filter_validTag)
    qed
  qed
  have arr: "fst (extractTags E prompt con) = Fulfilled [t. JString t \<leftarrow> elems, t \<in> TAG_SET]"
    if "truthy (ANTHROPIC_API_KEY E)" "messages_create E prompt = Fulfilled (TextBlock reply # rest)"
      "JSON_parse E reply = Inr (JArray elems)"
    using that by (simp add: fst_extractTags extractTags_try_def Let_def map_filter_validTag)
  from sub arr show ?thesis by blast
qed

text \<open>
  A model output with a capitalised term, a term outside the vocabulary, a number, a null
  and a nested array beside two terms of the vocabulary: only the two terms are returned.
\<close>

theorem extractTags_only_vocabulary_witness:
  "fst (extractTags \<lparr>ANTHROPIC_API_KEY = Some ''key'',
          messages_create = (\<lambda>prompt. Fulfilled [TextBlock ''[...]'']),
          JSON_grammar = (\<lambda>text. Some (JArray
            [JString ''Piano'', JString ''piano'', JNumber 3, JString ''jam'', JNull,
             JString ''rain'', JArray [JString ''sad'']]))\<rparr> ''rainy day'' [])
     = Fulfilled [''piano'', ''rain''] \<and>
   set [''piano'', ''rain''] \<subseteq> TAG_SET"
proof -
  let ?elems = "[JString ''Piano'', JString ''piano'', JNumber 3, JString ''jam'', JNull,
             JString ''rain'', JArray [JString ''sad'']]"
  let ?E = "\<lparr>ANTHROPIC_API_KEY = Some ''key'',
          messages_create = (\<lambda>prompt. Fulfilled [TextBlock ''[...]'']),
          JSON_grammar = (\<lambda>text. Some (JArray ?elems))\<rparr>"
  have f: "[t. JString t \<leftarrow> ?elems, t \<in> TAG_SET] = [''piano'', ''rain'']"
    by (simp add: TAG_SET_def TAGS_def)
  have k: "truthy (ANTHROPIC_API_KEY ?E)" by (simp add: truthy_def)
  have m: "messages_create ?E ''rainy day'' = Fulfilled (TextBlock ''[...]'' # [])" by simp
  have j: "JSON_parse ?E ''[...]'' = Inr (JArray ?elems)" by (simp add: JSON_parse_def)
  note w = extractTags_only_vocabulary [where E = ?E and prompt = "''rainy day''" and con = "[]"
        and reply = "''[...]''" and rest = "[]" and elems = ?elems
        and validTags = "[''piano'', ''rain'']"]
  from w have "fst (extractTags ?E ''rainy day'' []) = Fulfilled [t. JString t \<leftarrow> ?elems, t \<in> TAG_SET]"
    using k m j by blast
  then have r: "fst (extractTags ?E ''rainy day'' []) = Fulfilled [''piano'', ''rain'']"
    by (simp only: f)
  moreover from w r have "set [''piano'', ''rain''] \<subseteq> TAG_SET" by blast
  ultimately show ?thesis by blast
qed

end
